theory Spec2Isabelle
  imports Main "HOL-Library.Word"
begin

unbundle bit_operations_syntax

section \<open>ECHONET Lite frame codec of \<open>raw_echonet.py\<close>\<close>

text \<open>
  Python integers are unbounded and are modelled as \<open>int\<close>. A byte sequence is a list
  of \<open>8 word\<close>: the \<open>bytearray\<close> the encoder builds, and the \<open>bytes\<close> the
  decoder reads and slices its payloads from. Reading an element gives a Python integer
  between 0 and 255, which is \<open>uint\<close> of the word. The two types compare equal when
  their elements agree and differ, for the code modelled here, only in the text of their
  \<open>IndexError\<close>. Exceptions are values of \<open>py_error\<close>, carried in a sum type with
  \<open>Inl\<close> for the raised exception.
\<close>

type_synonym byte = "8 word"

datatype py_error = ValueError | IndexError

text \<open>
  \<open>bytearray(xs)\<close> and \<open>packet.extend(xs)\<close> for a sequence of integers: every element
  must lie in \<open>range(256)\<close>, otherwise \<open>ValueError\<close> is raised.
\<close>

fun to_bytes :: "int list \<Rightarrow> py_error + byte list" where
  "to_bytes [] = Inr []"
| "to_bytes (x # xs) =
     (if 0 \<le> x \<and> x < 256
      then (case to_bytes xs of Inl e \<Rightarrow> Inl e | Inr bs \<Rightarrow> Inr (word_of_int x # bs))
      else Inl ValueError)"

subsection \<open>Encoding: \<open>create_echonet_packet\<close>\<close>

text \<open>
  The loop over \<open>props\<close>. A property is a Python sequence whose element 0 is the code
  (EPC), element 1 the declared length (PDC) and whose remaining elements \<open>prop[2:]\<close> are
  the payload (EDT). Indexing a sequence with fewer than two elements raises
  \<open>IndexError\<close>. The payload is appended only when \<open>pdc > 0\<close>, and then all of it is
  appended whatever \<open>pdc\<close> says.
\<close>

fun add_properties :: "byte list \<Rightarrow> int list list \<Rightarrow> py_error + byte list" where
  "add_properties packet [] = Inr packet"
| "add_properties packet (prop # rest) =
     (case prop of
        [] \<Rightarrow> Inl IndexError
      | [epc] \<Rightarrow> Inl IndexError
      | epc # pdc # edt \<Rightarrow>
          (case to_bytes [epc, pdc] of
             Inl e \<Rightarrow> Inl e
           | Inr header \<Rightarrow>
               if pdc > 0
               then (case to_bytes edt of
                       Inl e \<Rightarrow> Inl e
                     | Inr payload \<Rightarrow> add_properties (packet @ header @ payload) rest)
               else add_properties (packet @ header) rest))"

definition create_echonet_packet ::
  "int \<Rightarrow> int \<Rightarrow> int \<Rightarrow> int \<Rightarrow> int \<Rightarrow> int list list \<Rightarrow> py_error + byte list" where
  "create_echonet_packet tid eojgc eojcc eojci esv props =
     (let ehd1 = 0x10; ehd2 = 0x81;
          tid_high = (drop_bit 8 tid) AND 0xFF;
          tid_low = tid AND 0xFF;
          seoj1 = 0x05; seoj2 = 0xFF; seoj3 = 0x01;
          deoj1 = eojgc; deoj2 = eojcc; deoj3 = eojci;
          esv_code = esv;
          opc = int (length props)
      in case to_bytes [ehd1, ehd2, tid_high, tid_low, seoj1, seoj2, seoj3,
                        deoj1, deoj2, deoj3, esv_code, opc] of
           Inl e \<Rightarrow> Inl e
         | Inr packet \<Rightarrow> add_properties packet props)"

subsection \<open>Decoding: \<open>parse_echonet_response\<close>\<close>

text \<open>
  The dictionary returned by the parser, with its keys as fields. A decoded property is
  the tuple \<open>(epc, pdc, edt)\<close>, with \<open>edt\<close> a slice of the input.
\<close>

type_synonym property = "int \<times> int \<times> byte list"

record response =
  ehd :: int
  tid :: int
  seoj :: "int \<times> int \<times> int"
  deoj :: "int \<times> int \<times> int"
  esv :: int
  opc :: int
  props :: "property list"

text \<open>
  The loop \<open>for i in range(opc)\<close>: the first argument counts the iterations that remain,
  \<open>idx\<close> is the read position and \<open>acc\<close> the list \<open>props\<close> built so far. Both
  \<open>break\<close>s leave the loop with the list as it is. Every read is guarded by the preceding
  length test, so no index is out of range and the slice
  \<open>data[idx + 2:idx + 2 + pdc]\<close> has exactly \<open>pdc\<close> elements.
\<close>

fun parse_props :: "byte list \<Rightarrow> nat \<Rightarrow> nat \<Rightarrow> property list \<Rightarrow> property list" where
  "parse_props data 0 idx acc = acc"
| "parse_props data (Suc n) idx acc =
     (if idx + 2 > length data then acc
      else
        let epc = uint (data ! idx);
            pdc = uint (data ! (idx + 1))
        in if idx + 2 + nat pdc > length data then acc
           else
             let edt = take (nat pdc) (drop (idx + 2) data)
             in parse_props data n (idx + 2 + nat pdc) (acc @ [(epc, pdc, edt)]))"

text \<open>
  The parser returns \<open>None\<close> for fewer than 12 bytes. Its body sits in a
  \<open>try ... except Exception\<close> that also returns \<open>None\<close>; with a \<open>bytes\<close> input of at
  least 12 elements no statement of the body can raise, as every index read is below the
  tested length, so that handler has no branch in the model.
\<close>

definition parse_echonet_response :: "byte list \<Rightarrow> response option" where
  "parse_echonet_response data =
     (if length data < 12 then None
      else Some \<lparr>
        ehd = push_bit 8 (uint (data ! 0)) OR uint (data ! 1),
        tid = push_bit 8 (uint (data ! 2)) OR uint (data ! 3),
        seoj = (uint (data ! 4), uint (data ! 5), uint (data ! 6)),
        deoj = (uint (data ! 7), uint (data ! 8), uint (data ! 9)),
        esv = uint (data ! 10),
        opc = uint (data ! 11),
        props = parse_props data (nat (uint (data ! 11))) 12 [] \<rparr>)"

section \<open>Property interpreter: \<open>format_property_value\<close>\<close>

definition EPC_OPERATIONAL_STATUS :: int where "EPC_OPERATIONAL_STATUS = 0x80"
definition EPC_INSTALLATION_LOCATION :: int where "EPC_INSTALLATION_LOCATION = 0x81"
definition EPC_MANUFACTURER_CODE :: int where "EPC_MANUFACTURER_CODE = 0x8A"
definition EPC_POWER_CONSUMPTION :: int where "EPC_POWER_CONSUMPTION = 0x84"
definition EPC_CUMULATIVE_POWER :: int where "EPC_CUMULATIVE_POWER = 0x85"
definition EPC_INSTANTANEOUS_POWER :: int where "EPC_INSTANTANEOUS_POWER = 0xE0"
definition EPC_BATTERY_CHARGE_DISCHARGE :: int where "EPC_BATTERY_CHARGE_DISCHARGE = 0xD3"

text \<open>
  The library functions the formatter calls: \<open>binascii.hexlify(edt).decode()\<close> (two
  lower-case hexadecimal digits per byte), the decimal text of an integer as an f-string
  prints it, and \<open>int.from_bytes(edt, byteorder='big')\<close>, unsigned or with
  \<open>signed=True\<close> (two's complement over all \<open>8 * len(edt)\<close> bits).
\<close>

definition hex_digit :: "nat \<Rightarrow> char" where
  "hex_digit n = ''0123456789abcdef'' ! n"

definition hexlify :: "byte list \<Rightarrow> string" where
  "hexlify bs = concat (map (\<lambda>b. [hex_digit (unat b div 16), hex_digit (unat b mod 16)]) bs)"

definition dec_digit :: "nat \<Rightarrow> char" where
  "dec_digit n = ''0123456789'' ! n"

fun str_nat :: "nat \<Rightarrow> string" where
  "str_nat n = (if n < 10 then [dec_digit n] else str_nat (n div 10) @ [dec_digit (n mod 10)])"

declare str_nat.simps [simp del]

definition decimal :: "int \<Rightarrow> string" where
  "decimal v = (if v < 0 then CHR ''-'' # str_nat (nat (- v)) else str_nat (nat v))"

text \<open>
  Converting an integer to text is not total in CPython 3.11 and later: an integer of more
  than \<open>sys.get_int_max_str_digits()\<close> decimal digits, 4300 unless the interpreter is
  configured otherwise, raises \<open>ValueError\<close>. The sign is not counted.
\<close>

definition int_max_str_digits :: nat where
  "int_max_str_digits = 4300"

definition str_int :: "int \<Rightarrow> py_error + string" where
  "str_int v =
     (if length (str_nat (nat \<bar>v\<bar>)) > int_max_str_digits then Inl ValueError
      else Inr (decimal v))"

definition from_bytes_big :: "byte list \<Rightarrow> int" where
  "from_bytes_big bs = foldl (\<lambda>acc b. acc * 256 + uint b) 0 bs"

definition from_bytes_big_signed :: "byte list \<Rightarrow> int" where
  "from_bytes_big_signed bs =
     (let u = from_bytes_big bs
      in if bs \<noteq> [] \<and> 2 ^ (8 * length bs - 1) \<le> u then u - 2 ^ (8 * length bs) else u)"

text \<open>
  \<open>str(e)\<close> of an exception caught by the formatter. Two statements of its body can
  raise: \<open>edt[0]\<close> on an empty payload, and the conversion of an integer of more than
  4300 digits to text. The payload is a \<open>bytes\<close> object, as every payload the parser
  returns for a received datagram is, and the \<open>IndexError\<close> of \<open>bytes\<close> prints as
  \<open>index out of range\<close>; for a \<open>bytearray\<close> the same exception prints with the
  type name in front, \<open>bytearray index out of range\<close>.
\<close>

definition exception_text :: "py_error \<Rightarrow> string" where
  "exception_text e =
     (case e of
        IndexError \<Rightarrow> ''index out of range''
      | ValueError \<Rightarrow>
          ''Exceeds the limit (4300 digits) for integer string conversion; '' @
          ''use sys.set_int_max_str_digits() to increase the limit'')"

text \<open>
  The body of the \<open>try\<close> block. A branch of the \<open>if/elif\<close> chain whose inner length
  test fails returns nothing and falls through to the default \<open>Raw\<close> dump after the
  chain. The branch for the operational status reads \<open>edt[0]\<close> without a length test.
  \<open>suffixed\<close> is an f-string that ends in a unit: it raises what the conversion of
  its integer raises.
\<close>

definition suffixed :: "string \<Rightarrow> int \<Rightarrow> string \<Rightarrow> py_error + string" where
  "suffixed label v unit =
     (case str_int v of Inl e \<Rightarrow> Inl e | Inr s \<Rightarrow> Inr (label @ s @ unit))"

definition format_try :: "int \<Rightarrow> byte list \<Rightarrow> py_error + string" where
  "format_try epc edt =
     (let raw = Inr (''Raw: '' @ hexlify edt) in
      if epc = EPC_OPERATIONAL_STATUS then
        (case edt of
           [] \<Rightarrow> Inl IndexError
         | b # _ \<Rightarrow> Inr (if uint b = 0x30 then ''ON'' else ''OFF''))
      else if epc = EPC_MANUFACTURER_CODE then
        Inr (''Manufacturer: '' @ hexlify edt)
      else if epc = EPC_POWER_CONSUMPTION then
        (if length edt \<ge> 2 then suffixed [] (from_bytes_big edt) '' W'' else raw)
      else if epc = EPC_CUMULATIVE_POWER then
        (if length edt \<ge> 4 then suffixed [] (from_bytes_big edt) '' kWh'' else raw)
      else if epc = EPC_INSTANTANEOUS_POWER then
        (if length edt \<ge> 2 then suffixed [] (from_bytes_big edt) '' W'' else raw)
      else if epc = EPC_BATTERY_CHARGE_DISCHARGE then
        (if length edt \<ge> 2 then
           (let val = from_bytes_big_signed edt
            in if val \<ge> 0 then suffixed ''Charging: '' val '' W''
               else suffixed ''Discharging: '' (- val) '' W'')
         else raw)
      else raw)"

text \<open>
  The whole function: \<open>except Exception as e\<close> turns whatever the body raised into the
  returned string \<open>Error formatting: ...\<close>. The result type still has an \<open>Inl\<close>, so
  that "the formatter raises nothing" is a statement about it and not a choice of type.
\<close>

definition format_property_value :: "int \<Rightarrow> byte list \<Rightarrow> py_error + string" where
  "format_property_value epc edt =
     (case format_try epc edt of
        Inr s \<Rightarrow> Inr s
      | Inl e \<Rightarrow> Inr (''Error formatting: '' @ exception_text e))"

section \<open>Prober: \<open>probe_echonet_device\<close> and \<open>main\<close>\<close>

type_synonym reading = "string \<times> string \<times> string"

type_synonym device = "int \<times> int \<times> int \<times> string"

definition device_types :: "device list" where
  "device_types =
     [(0x02, 0x7D, 0x01, ''Storage Battery''),
      (0x02, 0x79, 0x01, ''Home Solar Power''),
      (0x02, 0x88, 0x01, ''Smart Electric Energy Meter''),
      (0x05, 0xFF, 0x01, ''Controller''),
      (0x00, 0x11, 0x01, ''Temperature Sensor'')]"

definition property_sets :: "int list list list" where
  "property_sets =
     [[[EPC_OPERATIONAL_STATUS, 0], [EPC_INSTALLATION_LOCATION, 0], [EPC_MANUFACTURER_CODE, 0]],
      [[EPC_POWER_CONSUMPTION, 0], [EPC_CUMULATIVE_POWER, 0]],
      [[EPC_INSTANTANEOUS_POWER, 0], [EPC_BATTERY_CHARGE_DISCHARGE, 0]]]"

text \<open>
  What the outside world does to one request. \<open>sock.sendto\<close> may raise
  (\<open>SendFailed\<close>); \<open>sock.recvfrom(1024)\<close> may raise \<open>socket.timeout\<close>
  (\<open>TimedOut\<close>) or another exception (\<open>RecvFailed\<close>), or deliver a datagram, of
  which at most 1024 bytes are returned. The environment answers the \<open>k\<close>-th request
  (counted from 0) as a function of \<open>k\<close> and of the packet sent, and \<open>clock k\<close> is the
  integer \<open>int(time.time() * 1000)\<close> read before the \<open>k\<close>-th request.
\<close>

datatype net_event = SendFailed | TimedOut | RecvFailed | Datagram "byte list"

record environment =
  clock :: "nat \<Rightarrow> int"
  network :: "nat \<Rightarrow> byte list \<Rightarrow> net_event"

text \<open>
  The state of a run: \<open>sent\<close> is the sequence of packets handed to \<open>sock.sendto\<close>, in
  call order, and \<open>successful_readings\<close> is the list of that name. Console output, the
  half-second pause between requests and the opening and closing of the socket are not
  part of the model.
\<close>

record probe_state =
  sent :: "byte list list"
  successful_readings :: "reading list"

text \<open>The format specification \<open>02X\<close>: upper-case hexadecimal, zero-padded to width 2.\<close>

definition upper_hex_digit :: "nat \<Rightarrow> char" where
  "upper_hex_digit n = ''0123456789ABCDEF'' ! n"

fun upper_hex :: "nat \<Rightarrow> string" where
  "upper_hex n =
     (if n < 16 then [upper_hex_digit n]
      else upper_hex (n div 16) @ [upper_hex_digit (n mod 16)])"

declare upper_hex.simps [simp del]

definition format_02X :: "int \<Rightarrow> string" where
  "format_02X x =
     (if x < 0 then CHR ''-'' # upper_hex (nat (- x))
      else let s = upper_hex (nat x) in if length s < 2 then CHR ''0'' # s else s)"

text \<open>
  The loop \<open>for prop in parsed['props']\<close>. An exception of the formatter would leave the
  loop for the handler of the enclosing \<open>try\<close>, with the readings appended so far kept.
\<close>

fun process_props :: "string \<Rightarrow> property list \<Rightarrow> reading list \<Rightarrow> reading list" where
  "process_props device_name [] readings = readings"
| "process_props device_name ((epc, pdc, edt) # rest) readings =
     (case format_property_value epc edt of
        Inl e \<Rightarrow> readings
      | Inr formatted_value \<Rightarrow>
          process_props device_name rest
            (if pdc > 0
             then readings @ [(device_name, ''EPC 0x'' @ format_02X epc, formatted_value)]
             else readings))"

text \<open>
  The body of the inner loop, for one device and one property set. The packet is built
  outside the \<open>try\<close>, so an exception of \<open>create_echonet_packet\<close> would end the run;
  everything after it is caught, and the run goes on with the next pair.
\<close>

definition probe_pair ::
  "environment \<Rightarrow> device \<Rightarrow> int list list \<Rightarrow> probe_state \<Rightarrow> py_error + probe_state" where
  "probe_pair env dev prop_set st =
     (case dev of (eojgc, eojcc, eojci, device_name) \<Rightarrow>
        let attempt = length (sent st);
            tid = clock env attempt AND 0xFFFF
        in case create_echonet_packet tid eojgc eojcc eojci 0x62 prop_set of
             Inl e \<Rightarrow> Inl e
           | Inr packet \<Rightarrow>
               let st1 = st\<lparr>sent := sent st @ [packet]\<rparr>
               in Inr (case network env attempt packet of
                         SendFailed \<Rightarrow> st1
                       | TimedOut \<Rightarrow> st1
                       | RecvFailed \<Rightarrow> st1
                       | Datagram payload \<Rightarrow>
                           (case parse_echonet_response (take 1024 payload) of
                              None \<Rightarrow> st1
                            | Some parsed \<Rightarrow>
                                st1\<lparr>successful_readings :=
                                      process_props device_name (props parsed)
                                        (successful_readings st1)\<rparr>)))"

fun probe_property_sets ::
  "environment \<Rightarrow> device \<Rightarrow> int list list list \<Rightarrow> probe_state \<Rightarrow> py_error + probe_state" where
  "probe_property_sets env dev [] st = Inr st"
| "probe_property_sets env dev (prop_set # rest) st =
     (case probe_pair env dev prop_set st of
        Inl e \<Rightarrow> Inl e
      | Inr st' \<Rightarrow> probe_property_sets env dev rest st')"

fun probe_devices ::
  "environment \<Rightarrow> device list \<Rightarrow> probe_state \<Rightarrow> py_error + probe_state" where
  "probe_devices env [] st = Inr st"
| "probe_devices env (dev # rest) st =
     (case probe_property_sets env dev property_sets st of
        Inl e \<Rightarrow> Inl e
      | Inr st' \<Rightarrow> probe_devices env rest st')"

text \<open>
  The two nested loops over the catalogues, from the empty state; then the return value
  of \<open>probe_echonet_device\<close>, and the exit code \<open>main\<close> computes from it.
\<close>

definition probe_sweep :: "environment \<Rightarrow> py_error + probe_state" where
  "probe_sweep env = probe_devices env device_types \<lparr>sent = [], successful_readings = []\<rparr>"

definition probe_echonet_device :: "environment \<Rightarrow> py_error + bool" where
  "probe_echonet_device env =
     (case probe_sweep env of
        Inl e \<Rightarrow> Inl e
      | Inr st \<Rightarrow> if successful_readings st \<noteq> [] then Inr True else Inr False)"

definition main :: "environment \<Rightarrow> py_error + int" where
  "main env =
     (case probe_echonet_device env of
        Inl e \<Rightarrow> Inl e
      | Inr result \<Rightarrow> Inr (if result then 0 else 1))"

section \<open>Notions used in the statements\<close>

subsection \<open>Well-formed frames and their encoding\<close>

text \<open>
  A frame is a record of the decoder's result type. The encoder takes its fields as
  separate arguments and each property as one flat sequence, code and declared length
  first and the payload bytes after them.
\<close>

definition flat_prop :: "property \<Rightarrow> int list" where
  "flat_prop p = (case p of (epc, pdc, edt) \<Rightarrow> epc # pdc # map uint edt)"

definition encode_frame :: "response \<Rightarrow> py_error + byte list" where
  "encode_frame f =
     (case deoj f of (eojgc, eojcc, eojci) \<Rightarrow>
        create_echonet_packet (tid f) eojgc eojcc eojci (esv f) (map flat_prop (props f)))"

definition is_byte :: "int \<Rightarrow> bool" where
  "is_byte x = (0 \<le> x \<and> x < 256)"

definition wf_property :: "property \<Rightarrow> bool" where
  "wf_property p = (case p of (epc, pdc, edt) \<Rightarrow>
     is_byte epc \<and> pdc = int (length edt) \<and> length edt \<le> 255)"

text \<open>
  Well-formed: a 16-bit transaction id, the controller's identity as source, one-byte
  destination fields and service code, a count equal to the number of properties and at
  most 255, and well-formed properties.
\<close>

definition wf_frame :: "response \<Rightarrow> bool" where
  "wf_frame f =
     (0 \<le> tid f \<and> tid f < 65536 \<and>
      seoj f = (0x05, 0xFF, 0x01) \<and>
      (case deoj f of (eojgc, eojcc, eojci) \<Rightarrow> is_byte eojgc \<and> is_byte eojcc \<and> is_byte eojci) \<and>
      is_byte (esv f) \<and>
      opc f = int (length (props f)) \<and> length (props f) \<le> 255 \<and>
      (\<forall>p \<in> set (props f). wf_property p))"

text \<open>The bytes of one property on the wire, and of the 12-byte header.\<close>

definition prop_size :: "property \<Rightarrow> nat" where
  "prop_size p = (case p of (epc, pdc, edt) \<Rightarrow> 2 + length edt)"

definition prop_bytes :: "property \<Rightarrow> byte list" where
  "prop_bytes p = (case p of (epc, pdc, edt) \<Rightarrow> word_of_int epc # word_of_int pdc # edt)"

definition header_bytes :: "response \<Rightarrow> byte list" where
  "header_bytes f =
     (case deoj f of (eojgc, eojcc, eojci) \<Rightarrow>
        [0x10, 0x81, word_of_int (drop_bit 8 (tid f) AND 0xFF), word_of_int (tid f AND 0xFF),
         0x05, 0xFF, 0x01, word_of_int eojgc, word_of_int eojcc, word_of_int eojci,
         word_of_int (esv f), word_of_int (int (length (props f)))])"

subsection \<open>The properties present in a truncated packet\<close>

text \<open>
  \<open>prop_ends start ps\<close> lists, for each property, the offset just after its last byte
  when the first property starts at \<open>start\<close>. A property lies entirely before the
  truncation point \<open>k\<close> when that offset is at most \<open>k\<close>.
\<close>

fun prop_ends :: "nat \<Rightarrow> property list \<Rightarrow> nat list" where
  "prop_ends start [] = []"
| "prop_ends start (p # ps) = (start + prop_size p) # prop_ends (start + prop_size p) ps"

definition fully_present :: "nat \<Rightarrow> nat \<Rightarrow> property list \<Rightarrow> property list" where
  "fully_present start k ps =
     map fst (filter (\<lambda>(p, e). e \<le> k) (zip ps (prop_ends start ps)))"

text \<open>The longest prefix of the properties that fits into \<open>room\<close> bytes.\<close>

fun fitting :: "nat \<Rightarrow> property list \<Rightarrow> property list" where
  "fitting room [] = []"
| "fitting room (p # ps) =
     (if prop_size p \<le> room then p # fitting (room - prop_size p) ps else [])"

subsection \<open>Recognized property codes\<close>

text \<open>
  The codes the formatter has a branch for, and the number of payload bytes each branch
  needs: the operational status reads the first byte, the manufacturer code takes any
  length, the cumulative power needs four bytes and the other three numeric codes two.
\<close>

definition recognized_codes :: "int set" where
  "recognized_codes =
     {EPC_OPERATIONAL_STATUS, EPC_MANUFACTURER_CODE, EPC_POWER_CONSUMPTION,
      EPC_CUMULATIVE_POWER, EPC_INSTANTANEOUS_POWER, EPC_BATTERY_CHARGE_DISCHARGE}"

definition expected_width :: "int \<Rightarrow> nat" where
  "expected_width epc =
     (if epc = EPC_OPERATIONAL_STATUS then 1
      else if epc = EPC_POWER_CONSUMPTION then 2
      else if epc = EPC_CUMULATIVE_POWER then 4
      else if epc = EPC_INSTANTANEOUS_POWER then 2
      else if epc = EPC_BATTERY_CHARGE_DISCHARGE then 2
      else 0)"

subsection \<open>The sweep over the catalogues\<close>

text \<open>
  The string a property is formatted to, and the readings one decoded response gives
  rise to: one for each property with a nonzero declared length, in the order of the
  property list.
\<close>

definition formatted :: "int \<Rightarrow> byte list \<Rightarrow> string" where
  "formatted epc edt = (case format_property_value epc edt of Inr s \<Rightarrow> s | Inl e \<Rightarrow> [])"

definition response_readings :: "string \<Rightarrow> property list \<Rightarrow> reading list" where
  "response_readings device_name ps =
     map (\<lambda>(epc, pdc, edt). (device_name, ''EPC 0x'' @ format_02X epc, formatted epc edt))
       (filter (\<lambda>(epc, pdc, edt). pdc \<noteq> 0) ps)"

text \<open>The readings one request gives rise to, by what the network does to it.\<close>

definition event_readings :: "string \<Rightarrow> net_event \<Rightarrow> reading list" where
  "event_readings device_name ev =
     (case ev of
        Datagram payload \<Rightarrow>
          (case parse_echonet_response (take 1024 payload) of
             None \<Rightarrow> []
           | Some parsed \<Rightarrow> response_readings device_name (props parsed))
      | _ \<Rightarrow> [])"

text \<open>
  The pairs of the two catalogues in the order of the nested loops, the request packet
  for a pair (service code \<open>0x62\<close>, one entry with length 0 per property code), and
  the packet and the readings of the \<open>k\<close>-th attempt.
\<close>

definition catalogue_pairs :: "(device \<times> int list list) list" where
  "catalogue_pairs = List.product device_types property_sets"

definition request_packet :: "int \<Rightarrow> device \<Rightarrow> int list list \<Rightarrow> byte list" where
  "request_packet t dev prop_set =
     (case dev of (eojgc, eojcc, eojci, device_name) \<Rightarrow>
        [0x10, 0x81, word_of_int (drop_bit 8 t AND 0xFF), word_of_int (t AND 0xFF),
         0x05, 0xFF, 0x01, word_of_int eojgc, word_of_int eojcc, word_of_int eojci,
         0x62, word_of_int (int (length prop_set))]
        @ concat (map (\<lambda>p. [word_of_int (hd p), 0]) prop_set))"

definition attempt_packet :: "environment \<Rightarrow> nat \<times> device \<times> int list list \<Rightarrow> byte list" where
  "attempt_packet env a =
     (case a of (k, dev, prop_set) \<Rightarrow> request_packet (clock env k AND 0xFFFF) dev prop_set)"

definition attempt_readings :: "environment \<Rightarrow> nat \<times> device \<times> int list list \<Rightarrow> reading list" where
  "attempt_readings env a =
     (case a of (k, (eojgc, eojcc, eojci, device_name), prop_set) \<Rightarrow>
        event_readings device_name (network env k (attempt_packet env a)))"

text \<open>
  A device and a property set for which building the request cannot fail: one-byte
  identity fields, at most 255 two-element entries with a one-byte code and length 0.
\<close>

definition get_request :: "device \<Rightarrow> int list list \<Rightarrow> bool" where
  "get_request dev prop_set =
     (case dev of (eojgc, eojcc, eojci, device_name) \<Rightarrow>
        is_byte eojgc \<and> is_byte eojcc \<and> is_byte eojci \<and> length prop_set \<le> 255 \<and>
        list_all (\<lambda>p. length p = 2 \<and> is_byte (hd p) \<and> p ! 1 = 0) prop_set)"

text \<open>The two nested loops as a single loop over a list of pairs.\<close>

fun sweep_pairs ::
  "environment \<Rightarrow> (device \<times> int list list) list \<Rightarrow> probe_state \<Rightarrow> py_error + probe_state" where
  "sweep_pairs env [] st = Inr st"
| "sweep_pairs env ((dev, prop_set) # rest) st =
     (case probe_pair env dev prop_set st of
        Inl e \<Rightarrow> Inl e
      | Inr st' \<Rightarrow> sweep_pairs env rest st')"

section \<open>Lemmas on bytes and on the two codec loops\<close>

lemma byte_pair_value:
  "push_bit 8 (uint (a::byte)) OR uint (b::byte) = uint a * 256 + uint b"
proof -
  have tb: "take_bit 8 (uint b) = uint b"
    by (rule bintr_uint) simp
  then have "push_bit 8 (uint a) OR uint b = concat_bit 8 (uint b) (uint a)"
    by (simp add: concat_bit_def or.commute)
  also have "\<dots> = take_bit 8 (uint b) + push_bit 8 (uint a)"
    by (rule concat_bit_eq)
  finally show ?thesis
    using tb by (simp add: push_bit_eq_mult)
qed

lemma byte_lt_256: "uint (a::byte) < 256"
  using uint_lt2p [of a] by simp

lemma to_bytes_uint: "to_bytes (map uint bs) = Inr bs"
  by (induction bs) (simp_all add: byte_lt_256)

lemma add_properties_acc:
  "add_properties packet ps =
     (case add_properties [] ps of Inl e \<Rightarrow> Inl e | Inr s \<Rightarrow> Inr (packet @ s))"
proof (induction ps arbitrary: packet)
  case Nil
  show ?case by simp
next
  case (Cons p ps)
  have step: "add_properties (packet @ h) ps =
      (case add_properties h ps of Inl e \<Rightarrow> Inl e | Inr s \<Rightarrow> Inr (packet @ s))" for h
    using Cons.IH [of "packet @ h"] Cons.IH [of h] by (simp split: sum.splits)
  show ?case
  proof (cases p)
    case Nil
    then show ?thesis by simp
  next
    case c1: (Cons epc r)
    show ?thesis
    proof (cases r)
      case Nil
      then show ?thesis using c1 by simp
    next
      case c2: (Cons pdc edt)
      show ?thesis
        using step by (simp add: c1 c2 split: sum.splits)
    qed
  qed
qed

lemma add_properties_wf:
  "\<forall>p \<in> set ps. wf_property p \<Longrightarrow>
   add_properties packet (map flat_prop ps) = Inr (packet @ concat (map prop_bytes ps))"
proof (induction ps arbitrary: packet)
  case Nil
  show ?case by simp
next
  case (Cons p ps)
  obtain epc pdc edt where p: "p = (epc, pdc, edt)" by (cases p)
  from Cons.prems have wf: "0 \<le> epc" "epc < 256" "pdc = int (length edt)" "length edt \<le> 255"
    by (simp_all add: p wf_property_def is_byte_def)
  from Cons.prems have rest: "\<forall>q \<in> set ps. wf_property q" by simp
  show ?case
  proof (cases "pdc > 0")
    case True
    then show ?thesis
      using wf Cons.IH [OF rest] by (simp add: p flat_prop_def prop_bytes_def to_bytes_uint)
  next
    case False
    with wf have "edt = []" by simp
    then show ?thesis
      using wf Cons.IH [OF rest] by (simp add: p flat_prop_def prop_bytes_def)
  qed
qed

lemma length_prop_bytes: "length (prop_bytes p) = prop_size p"
  by (cases p) (simp add: prop_bytes_def prop_size_def)

lemma uint_byte_of_int: "0 \<le> x \<Longrightarrow> x < 256 \<Longrightarrow> uint (word_of_int x :: byte) = x"
  by (simp add: uint_word_of_int)

lemma parse_props_truncated:
  "\<forall>p \<in> set ps. wf_property p \<Longrightarrow>
   parse_props (take k (pre @ concat (map prop_bytes ps))) (length ps) (length pre) acc =
     acc @ fitting (k - length pre) ps"
proof (induction ps arbitrary: pre acc)
  case Nil
  show ?case by simp
next
  case (Cons p ps)
  obtain epc pdc edt where p: "p = (epc, pdc, edt)" by (cases p)
  from Cons.prems have wf: "0 \<le> epc" "epc < 256" "pdc = int (length edt)" "length edt \<le> 255"
    by (simp_all add: p wf_property_def is_byte_def)
  from Cons.prems have rest: "\<forall>q \<in> set ps. wf_property q" by simp
  define tail where "tail = concat (map prop_bytes ps)"
  define full where "full = pre @ word_of_int epc # word_of_int pdc # edt @ tail"
  define data where "data = take k full"
  define idx where "idx = length pre"
  have full_eq: "pre @ concat (map prop_bytes (p # ps)) = full"
    by (simp add: full_def tail_def p prop_bytes_def)
  have len_data: "length data = min k (idx + 2 + length edt + length tail)"
    by (simp add: data_def full_def idx_def)
  have size_p: "prop_size p = 2 + length edt"
    by (simp add: p prop_size_def)
  have "0 \<le> pdc" and "pdc < 256"
    using wf by simp_all
  then have pdc_u: "uint (word_of_int pdc :: byte) = pdc"
    by (rule uint_byte_of_int)
  then have pdc_n: "unat (word_of_int pdc :: byte) = nat pdc"
    by (simp add: unat_eq_nat_uint)
  have epc_u: "uint (word_of_int epc :: byte) = epc"
    using wf(1,2) by (rule uint_byte_of_int)
  show ?case
  proof (cases "idx + 2 \<le> k")
    case False
    then have "length data < idx + 2" using len_data by simp
    moreover have "\<not> prop_size p \<le> k - idx" using False size_p by simp
    ultimately show ?thesis
      unfolding full_eq by (simp add: data_def [symmetric] idx_def [symmetric])
  next
    case True
    then have ge: "\<not> idx + 2 > length data" using len_data by simp
    have d0: "data ! idx = word_of_int epc"
      using True by (simp add: data_def full_def idx_def nth_append)
    have d1: "data ! Suc idx = word_of_int pdc"
      using True by (simp add: data_def full_def idx_def nth_append)
    show ?thesis
    proof (cases "idx + 2 + length edt \<le> k")
      case False
      then have "idx + 2 + nat pdc > length data" using len_data wf by simp
      moreover have "\<not> prop_size p \<le> k - idx" using False size_p by simp
      ultimately show ?thesis
        unfolding full_eq using ge
        by (simp add: data_def [symmetric] idx_def [symmetric] d0 d1 pdc_u pdc_n Let_def)
    next
      case fits: True
      then have ok: "\<not> idx + 2 + nat pdc > length data" using len_data wf by simp
      have "full = (pre @ [word_of_int epc, word_of_int pdc]) @ (edt @ tail)"
        by (simp add: full_def)
      moreover have "length (pre @ [word_of_int epc, word_of_int pdc]) = idx + 2"
        by (simp add: idx_def)
      ultimately have "drop (idx + 2) full = edt @ tail"
        by (metis append_eq_conv_conj)
      then have "drop (idx + 2) data = take (k - (idx + 2)) (edt @ tail)"
        unfolding data_def by (simp only: drop_take)
      then have "take (nat pdc) (drop (idx + 2) data) = edt"
        using fits wf by simp
      then have edt: "take (nat pdc) (drop (Suc (Suc idx)) data) = edt"
        by simp
      have fit: "prop_size p \<le> k - idx" using fits size_p by simp
      have full2: "full = (pre @ prop_bytes p) @ concat (map prop_bytes ps)"
        by (simp add: full_def tail_def p prop_bytes_def)
      have len2: "length (pre @ prop_bytes p) = idx + 2 + nat pdc"
        using wf by (simp add: idx_def length_prop_bytes size_p)
      have "parse_props data (length ps) (idx + 2 + nat pdc) (acc @ [p]) =
              (acc @ [p]) @ fitting (k - (idx + 2 + nat pdc)) ps"
        using Cons.IH [OF rest, of "pre @ prop_bytes p" "acc @ [p]"]
        unfolding full2 [symmetric] data_def [symmetric] len2 .
      moreover have "k - (idx + 2 + nat pdc) = k - idx - prop_size p"
        using wf size_p by simp
      ultimately show ?thesis
        unfolding full_eq using ge ok fit
        by (simp add: data_def [symmetric] idx_def [symmetric] d0 d1 pdc_u pdc_n epc_u edt Let_def p)
    qed
  qed
qed

lemma and_255_range: "0 \<le> (x::int) AND 255" "(x::int) AND 255 < 256"
  by simp_all

lemma and_255_mod: "(x::int) AND 255 = x mod 256"
proof -
  have "mask 8 = (255::int)" by (simp add: mask_eq_exp_minus_1)
  then have "x AND 255 = take_bit 8 x" by (simp add: take_bit_eq_mask)
  then show ?thesis by (simp add: take_bit_eq_mod)
qed

lemma tid_bytes_value:
  assumes "0 \<le> t" "t < 65536"
  shows "push_bit 8 (uint (word_of_int (drop_bit 8 t AND 0xFF) :: byte))
           OR uint (word_of_int (t AND 0xFF) :: byte) = t"
proof -
  have hi: "drop_bit 8 t AND 0xFF = t div 256"
    using assms by (simp add: and_255_mod drop_bit_eq_div)
  have lo: "t AND 0xFF = t mod 256"
    by (simp add: and_255_mod)
  have "0 \<le> t div 256" "t div 256 < 256" using assms by simp_all
  then have uhi: "uint (word_of_int (t div 256) :: byte) = t div 256"
    by (rule uint_byte_of_int)
  have ulo: "uint (word_of_int (t mod 256) :: byte) = t mod 256"
    by (rule uint_byte_of_int) simp_all
  have "push_bit 8 (t div 256) OR t mod 256 = t div 256 * 256 + t mod 256"
    using byte_pair_value [of "word_of_int (t div 256)" "word_of_int (t mod 256)"]
    unfolding uhi ulo .
  then show ?thesis
    unfolding hi lo uhi ulo by simp
qed

lemma encode_frame_bytes:
  assumes "wf_frame f"
  shows "encode_frame f = Inr (header_bytes f @ concat (map prop_bytes (props f)))"
proof -
  obtain g c i where d: "deoj f = (g, c, i)" by (cases "deoj f")
  from assms have wf: "\<forall>p \<in> set (props f). wf_property p"
    and rng: "0 \<le> g" "g < 256" "0 \<le> c" "c < 256" "0 \<le> i" "i < 256"
             "0 \<le> esv f" "esv f < 256" "length (props f) \<le> 255"
    by (simp_all add: wf_frame_def d is_byte_def)
  have "to_bytes [0x10, 0x81, drop_bit 8 (tid f) AND 0xFF, tid f AND 0xFF, 0x05, 0xFF, 0x01,
                  g, c, i, esv f, int (length (props f))] = Inr (header_bytes f)"
    using rng and_255_range [of "tid f"] and_255_range [of "drop_bit 8 (tid f)"]
    by (simp add: header_bytes_def d)
  then show ?thesis
    by (simp add: encode_frame_def d create_echonet_packet_def add_properties_wf [OF wf])
qed

lemma length_header_bytes: "length (header_bytes f) = 12"
  by (cases "deoj f") (simp add: header_bytes_def)

lemma prop_size_ge_2: "2 \<le> prop_size p"
  by (cases p) (simp add: prop_size_def)

lemma prop_ends_ge: "e \<in> set (prop_ends start ps) \<Longrightarrow> start \<le> e"
proof (induction ps arbitrary: start)
  case Nil
  then show ?case by simp
next
  case (Cons p ps)
  from Cons.prems have "e = start + prop_size p \<or> e \<in> set (prop_ends (start + prop_size p) ps)"
    by simp
  then show ?case
  proof
    assume "e = start + prop_size p"
    then show ?thesis by simp
  next
    assume "e \<in> set (prop_ends (start + prop_size p) ps)"
    then have "start + prop_size p \<le> e" by (rule Cons.IH)
    then show ?thesis by simp
  qed
qed

lemma fully_present_fitting: "fully_present start k ps = fitting (k - start) ps"
proof (induction ps arbitrary: start)
  case Nil
  show ?case by (simp add: fully_present_def)
next
  case (Cons p ps)
  show ?case
  proof (cases "start + prop_size p \<le> k")
    case True
    then have "prop_size p \<le> k - start" by simp
    moreover have "k - start - prop_size p = k - (start + prop_size p)" by simp
    ultimately show ?thesis
      using True Cons.IH [of "start + prop_size p"] by (simp add: fully_present_def)
  next
    case False
    then have "\<not> prop_size p \<le> k - start"
      using prop_size_ge_2 [of p] by simp
    moreover have "filter (\<lambda>(q, e). e \<le> k) (zip ps (prop_ends (start + prop_size p) ps)) = []"
    proof -
      have "\<not> e \<le> k" if "(q, e) \<in> set (zip ps (prop_ends (start + prop_size p) ps))" for q e
        using prop_ends_ge [OF set_zip_rightD [OF that]] False by simp
      then show ?thesis by (auto simp: filter_empty_conv)
    qed
    ultimately show ?thesis
      using False by (simp add: fully_present_def)
  qed
qed

lemma fitting_prefix: "fitting room ps = take (length (fitting room ps)) ps"
  by (induction ps arbitrary: room) simp_all

lemma fitting_all: "sum_list (map prop_size ps) \<le> room \<Longrightarrow> fitting room ps = ps"
  by (induction ps arbitrary: room) simp_all

lemma parse_truncated_frame:
  assumes wf: "wf_frame f" and k: "12 \<le> k"
  shows "parse_echonet_response (take k (header_bytes f @ concat (map prop_bytes (props f)))) =
           Some (f\<lparr>ehd := 0x1081, props := fitting (k - 12) (props f)\<rparr>)"
proof -
  obtain g c i where d: "deoj f = (g, c, i)" by (cases "deoj f")
  define body where "body = concat (map prop_bytes (props f))"
  define data where "data = take k (header_bytes f @ body)"
  from wf have all: "\<forall>p \<in> set (props f). wf_property p"
    and rng: "0 \<le> g" "g < 256" "0 \<le> c" "c < 256" "0 \<le> i" "i < 256"
             "0 \<le> esv f" "esv f < 256" "length (props f) \<le> 255"
    and t: "0 \<le> tid f" "tid f < 65536"
    and s: "seoj f = (5, 255, 1)" and o: "opc f = int (length (props f))"
    by (simp_all add: wf_frame_def d is_byte_def)
  have len: "\<not> length data < 12"
    using k by (simp add: data_def length_header_bytes)
  have nth: "data ! j = header_bytes f ! j" if "j < 12" for j
    using that k by (simp add: data_def nth_append length_header_bytes)
  have n: "0 \<le> int (length (props f))" "int (length (props f)) < 256"
    using rng by simp_all
  have cnt: "uint (word_of_int (int (length (props f))) :: byte) = int (length (props f))"
    using n by (rule uint_byte_of_int)
  have pp: "parse_props data (length (props f)) 12 [] = fitting (k - 12) (props f)"
    using parse_props_truncated [OF all, of k "header_bytes f" "[]"]
    by (simp add: data_def body_def length_header_bytes)
  have fields:
    "push_bit 8 (uint (data ! 0)) OR uint (data ! Suc 0) = 0x1081"
    "push_bit 8 (uint (data ! 2)) OR uint (data ! 3) = tid f"
    "uint (data ! 4) = 5" "uint (data ! 5) = 255" "uint (data ! 6) = 1"
    "uint (data ! 7) = g" "uint (data ! 8) = c" "uint (data ! 9) = i"
    "uint (data ! 10) = esv f"
    "uint (data ! 11) = int (length (props f))"
    using rng tid_bytes_value [OF t] cnt
    by (simp_all add: nth header_bytes_def d uint_byte_of_int)
  have rec: "\<lparr>ehd = 0x1081, tid = tid f, seoj = (5, 255, 1), deoj = (g, c, i), esv = esv f,
              opc = int (length (props f)), props = fitting (k - 12) (props f)\<rparr> =
             f\<lparr>ehd := 0x1081, props := fitting (k - 12) (props f)\<rparr>"
    using d s o by (cases f) simp
  show ?thesis
    unfolding data_def [symmetric] body_def [symmetric] parse_echonet_response_def
    using len by (simp add: fields pp rec)
qed

lemma length_body: "length (concat (map prop_bytes ps)) = sum_list (map prop_size ps)"
  by (induction ps) (simp_all add: length_prop_bytes)

lemma length_parse_props:
  "length (parse_props data n idx acc) \<le> length acc + n"
proof (induction n arbitrary: idx acc)
  case 0
  show ?case by simp
next
  case (Suc n)
  have "length (parse_props data n i (acc @ [p])) \<le> Suc (length acc + n)" for i p
    using Suc.IH [of i "acc @ [p]"] by simp
  then show ?case by (simp add: Let_def)
qed

lemma length_parse_props_nil: "length (parse_props data n idx []) \<le> n"
  using length_parse_props [of data n idx "[]"] by simp


lemma create_marker:
  assumes "create_echonet_packet t g c i e ps = Inr pkt"
  shows "take 2 pkt = [0x10, 0x81]"
proof -
  from assms obtain hb where hb: "to_bytes [0x10, 0x81, drop_bit 8 t AND 0xFF, t AND 0xFF, 0x05, 0xFF, 0x01,
                  g, c, i, e, int (length ps)] = Inr hb" and ap: "add_properties hb ps = Inr pkt"
    by (auto simp: create_echonet_packet_def split: sum.splits)
  from hb obtain rest where "hb = 0x10 # 0x81 # rest"
    by (auto split: sum.splits if_splits)
  moreover from ap obtain s where "pkt = hb @ s"
    by (auto simp: add_properties_acc [of hb ps] split: sum.splits)
  ultimately show ?thesis by simp
qed

section \<open>Lemmas on the formatter\<close>

lemmas epc_defs = EPC_OPERATIONAL_STATUS_def EPC_INSTALLATION_LOCATION_def EPC_MANUFACTURER_CODE_def
  EPC_POWER_CONSUMPTION_def EPC_CUMULATIVE_POWER_def EPC_INSTANTANEOUS_POWER_def
  EPC_BATTERY_CHARGE_DISCHARGE_def

lemma from_bytes_big_snoc: "from_bytes_big (bs @ [b]) = from_bytes_big bs * 256 + uint b"
  by (simp add: from_bytes_big_def)

lemma from_bytes_big_range: "0 \<le> from_bytes_big bs \<and> from_bytes_big bs < 256 ^ length bs"
proof (induction bs rule: rev_induct)
  case Nil
  show ?case by (simp add: from_bytes_big_def)
next
  case (snoc b bs)
  have "0 \<le> uint b" "uint b < 256"
    using uint_lt2p [of b] by simp_all
  moreover from snoc have "0 \<le> from_bytes_big bs" "from_bytes_big bs + 1 \<le> 256 ^ length bs"
    by simp_all
  then have "0 \<le> from_bytes_big bs * 256" "(from_bytes_big bs + 1) * 256 \<le> 256 ^ length bs * 256"
    by simp_all
  ultimately show ?case
    by (simp add: from_bytes_big_snoc algebra_simps)
qed

lemma centred_mod:
  fixes u m :: int
  assumes "0 \<le> u" "u < 2 * m"
  shows "(u + m) mod (2 * m) - m = (if m \<le> u then u - 2 * m else u)"
proof (cases "m \<le> u")
  case True
  have "u + m = (u - m) + 2 * m"
    by simp
  then have "(u + m) mod (2 * m) = ((u - m) + 2 * m) mod (2 * m)"
    by (simp only:)
  also have "\<dots> = (u - m) mod (2 * m)"
    by (rule mod_add_self2)
  also have "\<dots> = u - m"
    using True assms by (simp add: mod_pos_pos_trivial)
  finally show ?thesis using True by simp
next
  case False
  then have "(u + m) mod (2 * m) = u + m"
    using assms by (simp add: mod_pos_pos_trivial)
  then show ?thesis using False by simp
qed

lemma from_bytes_big_signed_eq:
  assumes "bs \<noteq> []"
  shows "from_bytes_big_signed bs = signed_take_bit (8 * length bs - 1) (from_bytes_big bs)"
proof -
  define n where "n = 8 * length bs - 1"
  define u where "u = from_bytes_big bs"
  from assms have len: "8 * length bs = Suc n"
    by (cases bs) (simp_all add: n_def)
  have "(256::int) ^ length bs = 2 ^ (8 * length bs)"
    by (simp add: power_mult)
  then have p: "(256::int) ^ length bs = 2 * 2 ^ n"
    by (simp add: len)
  have rng: "0 \<le> u" "u < 2 * 2 ^ n"
    using from_bytes_big_range [of bs] by (simp_all add: u_def p)
  have "signed_take_bit n u = (u + 2 ^ n) mod (2 * 2 ^ n) - 2 ^ n"
    by (simp add: signed_take_bit_eq_take_bit_shift take_bit_eq_mod)
  also have "\<dots> = (if 2 ^ n \<le> u then u - 2 * 2 ^ n else u)"
    using rng by (rule centred_mod)
  finally have "signed_take_bit n u = (if 2 ^ n \<le> u then u - 2 * 2 ^ n else u)" .
  then show ?thesis
    using assms by (simp add: from_bytes_big_signed_def Let_def u_def [symmetric] len n_def [symmetric])
qed

lemma from_bytes_big_pair: "from_bytes_big [hi, lo] = uint (word_cat hi lo :: 16 word)"
proof -
  have "uint (word_cat hi lo :: 16 word) = concat_bit 8 (uint lo) (uint hi) mod 2 ^ 16"
    by (simp add: word_cat_eq' uint_word_of_int)
  moreover have "concat_bit 8 (uint lo) (uint hi) = uint lo + uint hi * 256"
    using bintr_uint [of 8 lo] by (simp add: concat_bit_eq push_bit_eq_mult)
  moreover have "0 \<le> uint lo + uint hi * 256" "uint lo + uint hi * 256 < 2 ^ 16"
    using uint_lt2p [of lo] uint_lt2p [of hi] uint_ge_0 [of lo] uint_ge_0 [of hi] by simp_all
  ultimately show ?thesis
    by (simp add: from_bytes_big_def)
qed

lemma from_bytes_big_signed_pair: "from_bytes_big_signed [hi, lo] = sint (word_cat hi lo :: 16 word)"
  using from_bytes_big_signed_eq [of "[hi, lo]"]
  by (simp add: from_bytes_big_pair sint_uint)

lemma length_str_nat: "0 < k \<Longrightarrow> n < 10 ^ k \<Longrightarrow> length (str_nat n) \<le> k"
proof (induction k arbitrary: n)
  case 0
  then show ?case by simp
next
  case (Suc k)
  show ?case
  proof (cases "n < 10")
    case True
    then show ?thesis by (simp add: str_nat.simps [of n])
  next
    case False
    with Suc.prems have k: "0 < k" by (cases k) simp_all
    from Suc.prems have "n div 10 < 10 ^ k"
      by (simp add: div_less_iff_less_mult)
    with k have "length (str_nat (n div 10)) \<le> k" by (rule Suc.IH)
    then show ?thesis using False by (simp add: str_nat.simps [of n])
  qed
qed

lemma power_256_le: "(256::nat) ^ n \<le> 10 ^ (3 * n)"
proof -
  have "(256::nat) ^ n \<le> 1000 ^ n"
    by (rule power_mono) simp_all
  also have "(1000::nat) ^ n = 10 ^ (3 * n)"
    by (simp add: power_mult)
  finally show ?thesis .
qed

lemma str_int_small:
  assumes "\<bar>v\<bar> < 256 ^ n" and "0 < n" and "n \<le> 255"
  shows "str_int v = Inr (decimal v)"
proof -
  from assms(1) have "nat \<bar>v\<bar> < 256 ^ n"
    by (simp add: nat_less_iff)
  from this power_256_le [of n] have "nat \<bar>v\<bar> < 10 ^ (3 * n)"
    by (rule less_le_trans)
  moreover from assms(2) have "0 < 3 * n" by simp
  ultimately have "length (str_nat (nat \<bar>v\<bar>)) \<le> 3 * n"
    by (rule length_str_nat [rotated])
  with assms(3) show ?thesis
    by (simp add: str_int_def int_max_str_digits_def)
qed

lemma from_bytes_big_signed_abs:
  assumes "bs \<noteq> []"
  shows "\<bar>from_bytes_big_signed bs\<bar> < 256 ^ length bs"
proof -
  have p: "(2::int) ^ (8 * length bs) = 256 ^ length bs"
    by (simp add: power_mult)
  note r = from_bytes_big_range [of bs]
  show ?thesis
  proof (cases "2 ^ (8 * length bs - 1) \<le> from_bytes_big bs")
    case True
    have "(0::int) < 2 ^ (8 * length bs - 1)" by simp
    from this True have "0 < from_bytes_big bs" by (rule less_le_trans)
    with True r assms show ?thesis
      by (simp add: from_bytes_big_signed_def Let_def p)
  next
    case False
    with r show ?thesis
      by (simp add: from_bytes_big_signed_def Let_def)
  qed
qed

lemma format_battery:
  assumes "2 \<le> length edt" and "length edt \<le> 255"
  shows "format_property_value 0xD3 edt =
           Inr (let v = from_bytes_big_signed edt
                in if 0 \<le> v then ''Charging: '' @ decimal v @ '' W''
                   else ''Discharging: '' @ decimal (- v) @ '' W'')"
proof -
  from assms(1) have ne: "edt \<noteq> []" and pos: "0 < length edt" by auto
  have ab: "\<bar>from_bytes_big_signed edt\<bar> < 256 ^ length edt"
    using ne by (rule from_bytes_big_signed_abs)
  then have ab': "\<bar>- from_bytes_big_signed edt\<bar> < 256 ^ length edt"
    by simp
  have s1: "str_int (from_bytes_big_signed edt) = Inr (decimal (from_bytes_big_signed edt))"
    using ab pos assms(2) by (rule str_int_small)
  have s2: "str_int (- from_bytes_big_signed edt) = Inr (decimal (- from_bytes_big_signed edt))"
    using ab' pos assms(2) by (rule str_int_small)
  show ?thesis
    using assms(1)
    by (simp add: format_property_value_def format_try_def epc_defs Let_def suffixed_def s1 s2)
qed

lemma format_digit_limit:
  assumes "2 \<le> length edt" and "0 \<le> from_bytes_big_signed edt"
    and "int_max_str_digits < length (str_nat (nat (from_bytes_big_signed edt)))"
  shows "format_property_value 0xD3 edt = Inr (''Error formatting: '' @ exception_text ValueError)"
  using assms
  by (simp add: format_property_value_def format_try_def epc_defs Let_def suffixed_def str_int_def)

lemma format_raw_elsewhere:
  assumes "epc \<notin> recognized_codes \<or>
     (epc \<in> recognized_codes \<and> epc \<noteq> EPC_OPERATIONAL_STATUS \<and> length edt < expected_width epc)"
  shows "format_property_value epc edt = Inr (''Raw: '' @ hexlify edt)"
  using assms
  by (auto simp: recognized_codes_def expected_width_def format_property_value_def
      format_try_def epc_defs Let_def split: if_splits)

lemma format_raw_example: "format_property_value 0xFF [0xAB, 0xCD] = Inr ''Raw: abcd''"
  by code_simp

section \<open>Lemmas on the prober\<close>

lemma format_returns: "format_property_value epc edt = Inr (formatted epc edt)"
  by (cases "format_try epc edt") (simp_all add: formatted_def format_property_value_def)

lemma process_props_eq:
  "list_all (\<lambda>(epc, pdc, edt). 0 \<le> pdc) ps \<Longrightarrow>
   process_props device_name ps readings = readings @ response_readings device_name ps"
proof (induction ps arbitrary: readings)
  case Nil
  show ?case by (simp add: response_readings_def)
next
  case (Cons p ps)
  obtain epc pdc edt where p: "p = (epc, pdc, edt)" by (cases p)
  from Cons.prems have nn: "0 \<le> pdc" and rest: "list_all (\<lambda>(epc, pdc, edt). 0 \<le> pdc) ps"
    by (simp_all add: p)
  show ?case
  proof (cases "pdc > 0")
    case True
    then show ?thesis
      using Cons.IH [OF rest] by (simp add: p format_returns response_readings_def)
  next
    case False
    with nn have "pdc = 0" by simp
    then show ?thesis
      using Cons.IH [OF rest] by (simp add: p format_returns response_readings_def)
  qed
qed

lemma parse_props_pdc:
  "list_all (\<lambda>(epc, pdc, edt). 0 \<le> pdc) acc \<Longrightarrow>
   list_all (\<lambda>(epc, pdc, edt). 0 \<le> pdc) (parse_props data n idx acc)"
proof (induction n arbitrary: idx acc)
  case 0
  then show ?case by simp
next
  case (Suc n)
  have step: "list_all (\<lambda>(epc, pdc, edt). 0 \<le> pdc) (parse_props data n i (acc @ [(e, uint b, d)]))"
    for i e b d
    by (rule Suc.IH) (use Suc.prems in simp)
  from Suc.prems show ?case by (simp add: Let_def step)
qed

lemma parsed_pdc:
  "parse_echonet_response data = Some parsed \<Longrightarrow>
   list_all (\<lambda>(epc, pdc, edt). 0 \<le> pdc) (props parsed)"
  using parse_props_pdc [of "[]" data "nat (uint (data ! 11))" 12]
  by (auto simp: parse_echonet_response_def split: if_splits)

lemma add_properties_requests:
  "list_all (\<lambda>p. length p = 2 \<and> is_byte (hd p) \<and> p ! 1 = 0) ps \<Longrightarrow>
   add_properties packet ps = Inr (packet @ concat (map (\<lambda>p. [word_of_int (hd p), 0]) ps))"
proof (induction ps arbitrary: packet)
  case Nil
  show ?case by simp
next
  case (Cons p ps)
  from Cons.prems obtain epc where p: "p = [epc, 0]" and e: "0 \<le> epc" "epc < 256"
    by (cases p; cases "tl p") (auto simp: is_byte_def)
  from Cons.prems have rest: "list_all (\<lambda>p. length p = 2 \<and> is_byte (hd p) \<and> p ! 1 = 0) ps"
    by simp
  show ?case
    using e Cons.IH [OF rest] by (simp add: p)
qed

lemma create_request:
  assumes "get_request dev prop_set" and "dev = (g, c, i, name)"
  shows "create_echonet_packet t g c i 0x62 prop_set = Inr (request_packet t dev prop_set)"
proof -
  from assms have rng: "0 \<le> g" "g < 256" "0 \<le> c" "c < 256" "0 \<le> i" "i < 256"
      "length prop_set \<le> 255"
    and ps: "list_all (\<lambda>p. length p = 2 \<and> is_byte (hd p) \<and> p ! 1 = 0) prop_set"
    by (simp_all add: get_request_def is_byte_def)
  show ?thesis
    using rng and_255_range [of t] and_255_range [of "drop_bit 8 t"]
    by (simp add: create_echonet_packet_def request_packet_def assms(2)
        add_properties_requests [OF ps])
qed

lemma probe_pair_eq:
  assumes "get_request dev prop_set"
  shows "probe_pair env dev prop_set st =
           Inr \<lparr>sent = sent st @ [attempt_packet env (length (sent st), dev, prop_set)],
                successful_readings = successful_readings st @
                  attempt_readings env (length (sent st), dev, prop_set)\<rparr>"
proof -
  obtain g c i name where d: "dev = (g, c, i, name)" by (cases dev)
  obtain s r where st: "st = \<lparr>sent = s, successful_readings = r\<rparr>" by (cases st) simp
  define k where "k = length s"
  define pkt where "pkt = request_packet (clock env k AND 0xFFFF) (g, c, i, name) prop_set"
  have cr: "create_echonet_packet (clock env k AND 0xFFFF) g c i 0x62 prop_set = Inr pkt"
    unfolding pkt_def using assms [unfolded d] by (rule create_request) simp
  have ap: "attempt_packet env (k, (g, c, i, name), prop_set) = pkt"
    by (simp add: attempt_packet_def pkt_def)
  have ar: "attempt_readings env (k, (g, c, i, name), prop_set) =
              event_readings name (network env k pkt)"
    by (simp add: attempt_readings_def ap)
  note unfold = probe_pair_def d st k_def [symmetric] ap ar event_readings_def Let_def
  show ?thesis
  proof (cases "network env k pkt")
    case (Datagram payload)
    show ?thesis
    proof (cases "parse_echonet_response (take 1024 payload)")
      case None
      then show ?thesis
        using cr Datagram by (simp add: unfold)
    next
      case (Some parsed)
      then show ?thesis
        using cr Datagram process_props_eq [OF parsed_pdc [OF Some]]
        by (simp add: unfold)
    qed
  qed (use cr in \<open>simp_all add: unfold\<close>)
qed

lemma sweep_pairs_eq:
  "list_all (\<lambda>(dev, prop_set). get_request dev prop_set) pairs \<Longrightarrow>
   sweep_pairs env pairs st =
     Inr \<lparr>sent = sent st @ map (attempt_packet env) (enumerate (length (sent st)) pairs),
          successful_readings = successful_readings st @
            concat (map (attempt_readings env) (enumerate (length (sent st)) pairs))\<rparr>"
proof (induction pairs arbitrary: st)
  case Nil
  show ?case by simp
next
  case (Cons a pairs)
  obtain dev prop_set where a: "a = (dev, prop_set)" by (cases a)
  from Cons.prems have ok: "get_request dev prop_set"
    and rest: "list_all (\<lambda>(dev, prop_set). get_request dev prop_set) pairs"
    by (simp_all add: a)
  show ?case
    by (simp add: a probe_pair_eq [OF ok] Cons.IH [OF rest])
qed

lemma sweep_pairs_append:
  "sweep_pairs env (xs @ ys) st =
     (case sweep_pairs env xs st of Inl e \<Rightarrow> Inl e | Inr st' \<Rightarrow> sweep_pairs env ys st')"
  by (induction xs arbitrary: st) (auto split: sum.splits)

lemma probe_property_sets_flat:
  "probe_property_sets env dev pss st = sweep_pairs env (map (Pair dev) pss) st"
  by (induction pss arbitrary: st) (auto split: sum.splits)

lemma probe_devices_flat:
  "probe_devices env devs st = sweep_pairs env (List.product devs property_sets) st"
  by (induction devs arbitrary: st)
     (auto simp: sweep_pairs_append probe_property_sets_flat split: sum.splits)

lemma catalogue_get_requests:
  "list_all (\<lambda>(dev, prop_set). get_request dev prop_set) catalogue_pairs"
  by (simp add: catalogue_pairs_def device_types_def property_sets_def get_request_def
      is_byte_def epc_defs)

lemma probe_sweep_eq:
  "probe_sweep env =
     Inr \<lparr>sent = map (attempt_packet env) (enumerate 0 catalogue_pairs),
          successful_readings = concat (map (attempt_readings env) (enumerate 0 catalogue_pairs))\<rparr>"
  using sweep_pairs_eq [OF catalogue_get_requests, of env "\<lparr>sent = [], successful_readings = []\<rparr>"]
  by (simp add: probe_sweep_def probe_devices_flat catalogue_pairs_def)

lemma meter_reply:
  "parse_echonet_response
     [0x10, 0x81, 0, 0, 0x02, 0x88, 0x01, 0x05, 0xFF, 0x01, 0x72, 3,
      0x80, 1, 0x30, 0x81, 0, 0x84, 2, 0, 150] =
   Some \<lparr>ehd = 0x1081, tid = 0, seoj = (0x02, 0x88, 0x01), deoj = (0x05, 0xFF, 0x01),
         esv = 0x72, opc = 3,
         props = [(0x80, 1, [0x30]), (0x81, 0, []), (0x84, 2, [0, 150])]\<rparr>"
  by code_simp

section \<open>The codec\<close>

text \<open>
  Claim C1. Decoding the packet that encodes a well-formed frame gives back the frame:
  the encoder succeeds, and the decoder returns the same transaction id, source and
  destination identities, service code, property count and property list. The decoded
  record has one more field, the format marker, which is the encoder's constant
  \<open>0x1081\<close>.
\<close>

theorem decode_encode_roundtrip:
  assumes "wf_frame f"
  shows "\<exists>pkt. encode_frame f = Inr pkt \<and>
               parse_echonet_response pkt = Some (f\<lparr>ehd := 0x1081\<rparr>)"
proof -
  define pkt where "pkt = header_bytes f @ concat (map prop_bytes (props f))"
  have enc: "encode_frame f = Inr pkt"
    using encode_frame_bytes [OF assms] by (simp add: pkt_def)
  have len: "length pkt = 12 + sum_list (map prop_size (props f))"
    by (simp add: pkt_def length_header_bytes length_body)
  then have "12 \<le> length pkt" by simp
  then have "parse_echonet_response (take (length pkt) pkt) =
               Some (f\<lparr>ehd := 0x1081, props := fitting (length pkt - 12) (props f)\<rparr>)"
    unfolding pkt_def by (rule parse_truncated_frame [OF assms])
  moreover have "fitting (length pkt - 12) (props f) = props f"
    using len by (simp add: fitting_all)
  ultimately have "parse_echonet_response pkt = Some (f\<lparr>ehd := 0x1081\<rparr>)"
    by simp
  with enc show ?thesis by blast
qed


theorem decode_encode_roundtrip_witness:
  "wf_frame \<lparr>ehd = 0x1081, tid = 0x1234, seoj = (0x05, 0xFF, 0x01), deoj = (0x02, 0x7D, 0x01),
              esv = 0x72, opc = 3,
              props = [(0x80, 1, [0x30]), (0x81, 0, []), (0xD3, 2, [0xFF, 0xF6])]\<rparr> \<and>
   encode_frame \<lparr>ehd = 0x1081, tid = 0x1234, seoj = (0x05, 0xFF, 0x01), deoj = (0x02, 0x7D, 0x01),
              esv = 0x72, opc = 3,
              props = [(0x80, 1, [0x30]), (0x81, 0, []), (0xD3, 2, [0xFF, 0xF6])]\<rparr> =
     Inr [0x10, 0x81, 0x12, 0x34, 0x05, 0xFF, 0x01, 0x02, 0x7D, 0x01, 0x72, 3,
          0x80, 1, 0x30, 0x81, 0, 0xD3, 2, 0xFF, 0xF6] \<and>
   parse_echonet_response
     [0x10, 0x81, 0x12, 0x34, 0x05, 0xFF, 0x01, 0x02, 0x7D, 0x01, 0x72, 3,
      0x80, 1, 0x30, 0x81, 0, 0xD3, 2, 0xFF, 0xF6] =
     Some \<lparr>ehd = 0x1081, tid = 0x1234, seoj = (0x05, 0xFF, 0x01), deoj = (0x02, 0x7D, 0x01),
              esv = 0x72, opc = 3,
              props = [(0x80, 1, [0x30]), (0x81, 0, []), (0xD3, 2, [0xFF, 0xF6])]\<rparr>"
proof -
  let ?F = "\<lparr>ehd = 0x1081, tid = 0x1234, seoj = (0x05, 0xFF, 0x01), deoj = (0x02, 0x7D, 0x01),
              esv = 0x72, opc = 3,
              props = [(0x80, 1, [0x30]), (0x81, 0, []), (0xD3, 2, [0xFF, 0xF6])]\<rparr>"
  have wf: "wf_frame ?F"
    by (simp add: wf_frame_def wf_property_def is_byte_def)
  have enc: "encode_frame ?F =
     Inr [0x10, 0x81, 0x12, 0x34, 0x05, 0xFF, 0x01, 0x02, 0x7D, 0x01, 0x72, 3,
          0x80, 1, 0x30, 0x81, 0, 0xD3, 2, 0xFF, 0xF6]"
    by code_simp
  from decode_encode_roundtrip [OF wf] enc wf show ?thesis
    by simp
qed

text \<open>
  Claim C2. A well-formed encoded frame cut after \<open>k \<ge> 12\<close> bytes is decoded,
  with no error, to the frame whose property list holds exactly the properties that end
  at or before offset \<open>k\<close>; these form a prefix of the original list, so the first
  incomplete property and everything after it are left out.
\<close>

theorem decode_truncated:
  assumes "wf_frame f" and "encode_frame f = Inr pkt" and "12 \<le> k"
  shows "parse_echonet_response (take k pkt) =
           Some (f\<lparr>ehd := 0x1081, props := fully_present 12 k (props f)\<rparr>) \<and>
         (\<exists>m. fully_present 12 k (props f) = take m (props f))"
proof -
  have pkt: "pkt = header_bytes f @ concat (map prop_bytes (props f))"
    using encode_frame_bytes [OF assms(1)] assms(2) by simp
  have "parse_echonet_response (take k pkt) =
          Some (f\<lparr>ehd := 0x1081, props := fitting (k - 12) (props f)\<rparr>)"
    unfolding pkt using assms(1,3) by (rule parse_truncated_frame)
  moreover have "\<exists>m. fitting (k - 12) (props f) = take m (props f)"
    using fitting_prefix [of "k - 12" "props f"] by blast
  ultimately show ?thesis
    by (simp add: fully_present_fitting)
qed


theorem decode_truncated_witness:
  "wf_frame \<lparr>ehd = 0x1081, tid = 0x1234, seoj = (0x05, 0xFF, 0x01), deoj = (0x02, 0x7D, 0x01),
              esv = 0x72, opc = 3,
              props = [(0x80, 1, [0x30]), (0x81, 0, []), (0xD3, 2, [0xFF, 0xF6])]\<rparr> \<and>
   encode_frame \<lparr>ehd = 0x1081, tid = 0x1234, seoj = (0x05, 0xFF, 0x01), deoj = (0x02, 0x7D, 0x01),
              esv = 0x72, opc = 3,
              props = [(0x80, 1, [0x30]), (0x81, 0, []), (0xD3, 2, [0xFF, 0xF6])]\<rparr> =
     Inr [0x10, 0x81, 0x12, 0x34, 0x05, 0xFF, 0x01, 0x02, 0x7D, 0x01, 0x72, 3,
          0x80, 1, 0x30, 0x81, 0, 0xD3, 2, 0xFF, 0xF6] \<and>
   (12::nat) \<le> 20 \<and>
   parse_echonet_response
     (take 20 [0x10, 0x81, 0x12, 0x34, 0x05, 0xFF, 0x01, 0x02, 0x7D, 0x01, 0x72, 3,
               0x80, 1, 0x30, 0x81, 0, 0xD3, 2, 0xFF, 0xF6]) =
     Some \<lparr>ehd = 0x1081, tid = 0x1234, seoj = (0x05, 0xFF, 0x01), deoj = (0x02, 0x7D, 0x01),
              esv = 0x72, opc = 3,
              props = [(0x80, 1, [0x30]), (0x81, 0, [])]\<rparr>"
proof -
  let ?F = "\<lparr>ehd = 0x1081, tid = 0x1234, seoj = (0x05, 0xFF, 0x01), deoj = (0x02, 0x7D, 0x01),
              esv = 0x72, opc = 3,
              props = [(0x80, 1, [0x30]), (0x81, 0, []), (0xD3, 2, [0xFF, 0xF6])]\<rparr>"
  have wf: "wf_frame ?F"
    by (simp add: wf_frame_def wf_property_def is_byte_def)
  have enc: "encode_frame ?F =
     Inr [0x10, 0x81, 0x12, 0x34, 0x05, 0xFF, 0x01, 0x02, 0x7D, 0x01, 0x72, 3,
          0x80, 1, 0x30, 0x81, 0, 0xD3, 2, 0xFF, 0xF6]"
    by code_simp
  have k: "(12::nat) \<le> 20" by simp
  have fp: "fully_present 12 20 (props ?F) = [(0x80, 1, [0x30]), (0x81, 0, [])]"
    by (simp add: fully_present_def prop_size_def)
  from decode_truncated [OF wf enc k] fp wf enc show ?thesis
    by simp
qed

text \<open>
  Claim C3. An input shorter than 12 bytes is answered with no frame at all (the value
  \<open>None\<close>, not an exception), and every input of at least 12 bytes is answered with
  some frame.
\<close>

theorem parse_short_none_long_some:
  "(length data < 12 \<longrightarrow> parse_echonet_response data = None) \<and>
   (12 \<le> length data \<longrightarrow> (\<exists>r. parse_echonet_response data = Some r))"
  by (simp add: parse_echonet_response_def)

theorem parse_short_none_long_some_witness:
  "(length ([1, 2, 3] :: byte list) < 12 \<and> parse_echonet_response [1, 2, 3] = None) \<and>
   (12 \<le> length ([16, 129, 0, 1, 2, 125, 1, 5, 255, 1, 114, 0] :: byte list) \<and>
    (\<exists>r. parse_echonet_response [16, 129, 0, 1, 2, 125, 1, 5, 255, 1, 114, 0] = Some r))"
  using parse_short_none_long_some [of "[1, 2, 3]"]
        parse_short_none_long_some [of "[16, 129, 0, 1, 2, 125, 1, 5, 255, 1, 114, 0]"]
  by simp

text \<open>
  Claim C9. The count field of a decoded frame is byte 11 of the input, whatever the
  number of properties parsed; that number is never larger than the count and can be
  smaller, as for the 16-byte input below, which announces three properties and holds
  one complete property and the first byte of a second.
\<close>

theorem opc_not_adjusted:
  "(12 \<le> length data \<longrightarrow>
      (\<exists>r. parse_echonet_response data = Some r \<and> opc r = uint (data ! 11) \<and>
           int (length (props r)) \<le> opc r)) \<and>
   parse_echonet_response [0x10, 0x81, 0, 1, 2, 0x7D, 1, 5, 0xFF, 1, 0x72, 3, 0x80, 1, 0x30, 0x81] =
     Some \<lparr>ehd = 0x1081, tid = 1, seoj = (2, 0x7D, 1), deoj = (5, 0xFF, 1), esv = 0x72,
           opc = 3, props = [(0x80, 1, [0x30])]\<rparr>"
proof (intro conjI impI)
  assume "12 \<le> length data"
  moreover have "int (length (parse_props data (nat (uint (data ! 11))) 12 [])) \<le> uint (data ! 11)"
    using length_parse_props_nil [of data "nat (uint (data ! 11))" 12] uint_ge_0 [of "data ! 11"]
    by linarith
  ultimately show "\<exists>r. parse_echonet_response data = Some r \<and> opc r = uint (data ! 11) \<and>
           int (length (props r)) \<le> opc r"
    by (simp add: parse_echonet_response_def)
next
  show "parse_echonet_response [0x10, 0x81, 0, 1, 2, 0x7D, 1, 5, 0xFF, 1, 0x72, 3, 0x80, 1, 0x30, 0x81] =
     Some \<lparr>ehd = 0x1081, tid = 1, seoj = (2, 0x7D, 1), deoj = (5, 0xFF, 1), esv = 0x72,
           opc = 3, props = [(0x80, 1, [0x30])]\<rparr>"
    by code_simp
qed

theorem opc_not_adjusted_witness:
  "12 \<le> length ([0xAB, 0xCD, 0, 7, 0, 0, 0, 0, 0, 0, 0x72, 2, 0x80, 5, 1] :: byte list) \<and>
   (\<exists>r. parse_echonet_response [0xAB, 0xCD, 0, 7, 0, 0, 0, 0, 0, 0, 0x72, 2, 0x80, 5, 1] = Some r \<and>
        opc r = 2 \<and> props r = [])"
proof -
  have "parse_echonet_response [0xAB, 0xCD, 0, 7, 0, 0, 0, 0, 0, 0, 0x72, 2, 0x80, 5, 1] =
          Some \<lparr>ehd = 0xABCD, tid = 7, seoj = (0, 0, 0), deoj = (0, 0, 0), esv = 0x72, opc = 2,
                props = []\<rparr>"
    by code_simp
  with opc_not_adjusted [of "[0xAB, 0xCD, 0, 7, 0, 0, 0, 0, 0, 0, 0x72, 2, 0x80, 5, 1]"]
  show ?thesis by simp
qed

text \<open>
  Claim C10. The decoder does not look at the format marker: any input of at least 12
  bytes is decoded, and the \<open>ehd\<close> field is the number whose high byte is byte 0 and
  whose low byte is byte 1 of the input, whatever they are. The encoder, when it
  succeeds, always starts its packet with \<open>0x10 0x81\<close>.
\<close>

theorem marker_not_validated:
  "(12 \<le> length data \<longrightarrow>
      (\<exists>r. parse_echonet_response data = Some r \<and>
           ehd r = uint (data ! 0) * 256 + uint (data ! 1) \<and>
           ehd r div 256 = uint (data ! 0) \<and> ehd r mod 256 = uint (data ! 1))) \<and>
   (create_echonet_packet t g c i e ps = Inr pkt \<longrightarrow> take 2 pkt = [0x10, 0x81])"
proof (intro conjI impI)
  assume "12 \<le> length data"
  moreover have "(uint (data ! 0) * 256 + uint (data ! 1)) div 256 = uint (data ! 0)"
    and "(uint (data ! 0) * 256 + uint (data ! 1)) mod 256 = uint (data ! 1)"
    using uint_lt2p [of "data ! 1"] uint_ge_0 [of "data ! 1"] by simp_all
  ultimately show "\<exists>r. parse_echonet_response data = Some r \<and>
           ehd r = uint (data ! 0) * 256 + uint (data ! 1) \<and>
           ehd r div 256 = uint (data ! 0) \<and> ehd r mod 256 = uint (data ! 1)"
    using byte_pair_value [of "data ! 0" "data ! 1"]
    by (simp add: parse_echonet_response_def)
next
  assume "create_echonet_packet t g c i e ps = Inr pkt"
  then show "take 2 pkt = [0x10, 0x81]" by (rule create_marker)
qed

theorem marker_not_validated_witness:
  "12 \<le> length ([0xAB, 0xCD, 0, 7, 0, 0, 0, 0, 0, 0, 0x72, 0] :: byte list) \<and>
   (\<exists>r. parse_echonet_response [0xAB, 0xCD, 0, 7, 0, 0, 0, 0, 0, 0, 0x72, 0] = Some r \<and>
        ehd r = 0xABCD) \<and>
   create_echonet_packet 7 0 0 0 0x72 [] =
     Inr [0x10, 0x81, 0, 7, 0x05, 0xFF, 0x01, 0, 0, 0, 0x72, 0] \<and>
   take 2 [0x10, 0x81, 0, 7, 0x05, 0xFF, 0x01, 0, 0, 0, 0x72, 0 :: byte] = [0x10, 0x81]"
proof -
  have c: "create_echonet_packet 7 0 0 0 0x72 [] =
     Inr [0x10, 0x81, 0, 7, 0x05, 0xFF, 0x01, 0, 0, 0, 0x72, 0]"
    by code_simp
  from marker_not_validated [of "[0xAB, 0xCD, 0, 7, 0, 0, 0, 0, 0, 0, 0x72, 0]" 7 0 0 0 "0x72" "[]"
      "[0x10, 0x81, 0, 7, 0x05, 0xFF, 0x01, 0, 0, 0, 0x72, 0]"] c
  show ?thesis by auto
qed

section \<open>The property interpreter\<close>

text \<open>
  Claim C5. The formatter is a function of code and payload. It gives \<open>ON\<close> for code
  0x80 with payload 0x30 and \<open>OFF\<close> with payload 0x31, \<open>Charging: 10 W\<close> for code
  0xD3 with payload 00 0A and \<open>Discharging: 10 W\<close> with payload FF F6. In general a
  two-byte payload of code 0xD3 is read as the signed 16-bit value of the two bytes, high
  byte first, and a payload of two to 255 bytes, the most a property can carry, as the
  two's complement value of all its bits; a negative value is printed as discharging of
  its negation.
\<close>

theorem format_examples:
  "format_property_value 0x80 [0x30] = Inr ''ON'' \<and>
   format_property_value 0x80 [0x31] = Inr ''OFF'' \<and>
   format_property_value 0xD3 [0x00, 0x0A] = Inr ''Charging: 10 W'' \<and>
   format_property_value 0xD3 [0xFF, 0xF6] = Inr ''Discharging: 10 W'' \<and>
   format_property_value 0xD3 [hi, lo] =
     Inr (let v = sint (word_cat hi lo :: 16 word)
          in if 0 \<le> v then ''Charging: '' @ decimal v @ '' W''
             else ''Discharging: '' @ decimal (- v) @ '' W'') \<and>
   (2 \<le> length edt \<and> length edt \<le> 255 \<longrightarrow>
      format_property_value 0xD3 edt =
        Inr (let v = signed_take_bit (8 * length edt - 1) (from_bytes_big edt)
             in if 0 \<le> v then ''Charging: '' @ decimal v @ '' W''
                else ''Discharging: '' @ decimal (- v) @ '' W''))"
proof (intro conjI impI)
  show "format_property_value 0x80 [0x30] = Inr ''ON''"
    by (simp add: format_property_value_def format_try_def epc_defs)
  show "format_property_value 0x80 [0x31] = Inr ''OFF''"
    by (simp add: format_property_value_def format_try_def epc_defs)
  show "format_property_value 0xD3 [0x00, 0x0A] = Inr ''Charging: 10 W''"
    using format_battery [of "[0x00, 0x0A]"]
    by (simp add: from_bytes_big_signed_def from_bytes_big_def decimal_def str_nat.simps
        dec_digit_def)
  show "format_property_value 0xD3 [0xFF, 0xF6] = Inr ''Discharging: 10 W''"
    using format_battery [of "[0xFF, 0xF6]"]
    by (simp add: from_bytes_big_signed_def from_bytes_big_def decimal_def str_nat.simps
        dec_digit_def)
  show "format_property_value 0xD3 [hi, lo] =
     Inr (let v = sint (word_cat hi lo :: 16 word)
          in if 0 \<le> v then ''Charging: '' @ decimal v @ '' W''
             else ''Discharging: '' @ decimal (- v) @ '' W'')"
    using format_battery [of "[hi, lo]"] by (simp add: from_bytes_big_signed_pair)
next
  assume "2 \<le> length edt \<and> length edt \<le> 255"
  then have len: "2 \<le> length edt" and up: "length edt \<le> 255" by simp_all
  from len have "edt \<noteq> []" by auto
  then show "format_property_value 0xD3 edt =
        Inr (let v = signed_take_bit (8 * length edt - 1) (from_bytes_big edt)
             in if 0 \<le> v then ''Charging: '' @ decimal v @ '' W''
                else ''Discharging: '' @ decimal (- v) @ '' W'')"
    using format_battery [OF len up] by (simp add: from_bytes_big_signed_eq)
qed

theorem format_examples_witness:
  "2 \<le> length ([0xFF, 0xFF, 0xF6] :: byte list) \<and>
   length ([0xFF, 0xFF, 0xF6] :: byte list) \<le> 255 \<and>
   signed_take_bit (8 * length ([0xFF, 0xFF, 0xF6] :: byte list) - 1)
     (from_bytes_big [0xFF, 0xFF, 0xF6]) = - 10 \<and>
   format_property_value 0xD3 [0xFF, 0xFF, 0xF6] = Inr ''Discharging: 10 W'' \<and>
   sint (word_cat (0x80 :: byte) (0x00 :: byte) :: 16 word) = - 32768 \<and>
   format_property_value 0xD3 [0x80, 0x00] = Inr ''Discharging: 32768 W''"
proof -
  have v: "signed_take_bit (8 * length ([0xFF, 0xFF, 0xF6] :: byte list) - 1)
             (from_bytes_big [0xFF, 0xFF, 0xF6]) = - 10"
    using from_bytes_big_signed_eq [of "[0xFF, 0xFF, 0xF6]", symmetric]
    by (simp add: from_bytes_big_signed_def from_bytes_big_def)
  have s1: "decimal 10 = ''10''"
    by code_simp
  have s2: "decimal 32768 = ''32768''"
    by (simp add: decimal_def str_nat.simps dec_digit_def)
  have w: "sint (word_cat (0x80 :: byte) (0x00 :: byte) :: 16 word) = - 32768"
    by code_simp
  have len: "2 \<le> length ([0xFF, 0xFF, 0xF6] :: byte list) \<and>
             length ([0xFF, 0xFF, 0xF6] :: byte list) \<le> 255"
    by simp
  from format_examples [of "0x80" "0x00" "[0xFF, 0xFF, 0xF6]"] len
  have "format_property_value 0xD3 [0xFF, 0xFF, 0xF6] =
          Inr (let v = signed_take_bit (8 * length ([0xFF, 0xFF, 0xF6] :: byte list) - 1)
                         (from_bytes_big [0xFF, 0xFF, 0xF6])
               in if 0 \<le> v then ''Charging: '' @ decimal v @ '' W''
                  else ''Discharging: '' @ decimal (- v) @ '' W'')"
    and "format_property_value 0xD3 [0x80, 0x00] =
          Inr (let v = sint (word_cat (0x80 :: byte) (0x00 :: byte) :: 16 word)
               in if 0 \<le> v then ''Charging: '' @ decimal v @ '' W''
                  else ''Discharging: '' @ decimal (- v) @ '' W'')"
    by blast+
  then have "format_property_value 0xD3 [0xFF, 0xFF, 0xF6] = Inr ''Discharging: 10 W''"
    and "format_property_value 0xD3 [0x80, 0x00] = Inr ''Discharging: 32768 W''"
    unfolding v w by (simp_all add: s1 s2)
  with len v w show ?thesis
    by blast
qed

text \<open>
  Claim C6. The claim asks for the \<open>Raw\<close> dump whenever the payload of a recognized
  code is too short. The formatter does not give it for the operational status with an
  empty payload: that branch reads the first payload byte without the length test the
  branches of the four numeric codes make, the read raises \<open>IndexError\<close>, and the
  handler's \<open>Error formatting\<close> string is returned. On the same empty payload each of
  the four numeric codes does return the \<open>Raw\<close> dump.
\<close>

theorem format_status_empty_not_raw:
  "EPC_OPERATIONAL_STATUS \<in> recognized_codes \<and>
   length ([] :: byte list) < expected_width EPC_OPERATIONAL_STATUS \<and>
   format_try EPC_OPERATIONAL_STATUS [] = Inl IndexError \<and>
   (\<exists>msg. format_property_value EPC_OPERATIONAL_STATUS [] = Inr (''Error formatting: '' @ msg)) \<and>
   format_property_value EPC_OPERATIONAL_STATUS [] \<noteq> Inr (''Raw: '' @ hexlify []) \<and>
   format_property_value EPC_POWER_CONSUMPTION [] = Inr (''Raw: '' @ hexlify []) \<and>
   format_property_value EPC_CUMULATIVE_POWER [] = Inr (''Raw: '' @ hexlify []) \<and>
   format_property_value EPC_INSTANTANEOUS_POWER [] = Inr (''Raw: '' @ hexlify []) \<and>
   format_property_value EPC_BATTERY_CHARGE_DISCHARGE [] = Inr (''Raw: '' @ hexlify [])"
  by (simp add: recognized_codes_def expected_width_def format_property_value_def format_try_def
      hexlify_def epc_defs)

text \<open>
  Claim C7. For every code and payload the formatter returns a string and raises nothing:
  whenever the body of its \<open>try\<close> block raises, the result is \<open>Error formatting:\<close>
  followed by the text of the exception.
\<close>

theorem format_never_raises:
  "\<exists>s. format_property_value epc edt = Inr s \<and>
       (\<forall>e. format_try epc edt = Inl e \<longrightarrow> s = ''Error formatting: '' @ exception_text e)"
  by (cases "format_try epc edt") (simp_all add: format_property_value_def)

theorem format_never_raises_witness:
  "format_try EPC_OPERATIONAL_STATUS [] = Inl IndexError \<and>
   format_property_value EPC_OPERATIONAL_STATUS [] = Inr ''Error formatting: index out of range''"
proof -
  have f: "format_try EPC_OPERATIONAL_STATUS [] = Inl IndexError"
    by (simp add: format_try_def)
  from format_never_raises [of EPC_OPERATIONAL_STATUS "[]"] f show ?thesis
    by (auto simp: exception_text_def)
qed

section \<open>The prober\<close>

text \<open>
  Claim C4. Whatever the clock shows and whatever the network does to each request
  (send failure, timeout, receive failure, or any datagram), the sweep returns; it has
  sent exactly one request for each of the 15 distinct pairs of the catalogues, in the
  order of the nested loops; and its readings are, attempt after attempt in that order
  and within an attempt in the order of the decoded property list, one reading for each
  decoded property with a nonzero length and none for a property of length zero.
\<close>

theorem probe_full_sweep:
  "\<exists>st. probe_sweep env = Inr st \<and>
        sent st = map (attempt_packet env) (enumerate 0 catalogue_pairs) \<and>
        successful_readings st =
          concat (map (attempt_readings env) (enumerate 0 catalogue_pairs)) \<and>
        length catalogue_pairs = 15 \<and> distinct catalogue_pairs"
proof -
  have "length catalogue_pairs = 15"
    by (simp add: catalogue_pairs_def device_types_def property_sets_def)
  moreover have "distinct catalogue_pairs"
    by (simp add: catalogue_pairs_def device_types_def property_sets_def epc_defs)
  ultimately show ?thesis
    by (simp add: probe_sweep_eq)
qed

theorem probe_full_sweep_witness:
  "\<exists>st. probe_sweep \<lparr>clock = (\<lambda>k. 0),
                       network = (\<lambda>k packet.
                         if k = 6
                         then Datagram [0x10, 0x81, 0, 0, 0x02, 0x88, 0x01, 0x05, 0xFF, 0x01, 0x72, 3,
                                        0x80, 1, 0x30, 0x81, 0, 0x84, 2, 0, 150]
                         else TimedOut)\<rparr> = Inr st \<and>
        length (sent st) = 15 \<and>
        successful_readings st =
          [(''Smart Electric Energy Meter'', ''EPC 0x80'', ''ON''),
           (''Smart Electric Energy Meter'', ''EPC 0x84'', ''150 W'')]"
proof -
  let ?env = "\<lparr>clock = (\<lambda>k. 0),
                       network = (\<lambda>k packet.
                         if k = 6
                         then Datagram [0x10, 0x81, 0, 0, 0x02, 0x88, 0x01, 0x05, 0xFF, 0x01, 0x72, 3,
                                        0x80, 1, 0x30, 0x81, 0, 0x84, 2, 0, 150]
                         else TimedOut)\<rparr>"
  have f1: "formatted 0x80 [0x30] = ''ON''"
    by (simp add: formatted_def format_property_value_def format_try_def epc_defs)
  have f2: "formatted 0x84 [0, 150] = ''150 W''"
    by (simp add: formatted_def format_property_value_def format_try_def epc_defs
        from_bytes_big_def suffixed_def str_int_def int_max_str_digits_def decimal_def
        str_nat.simps dec_digit_def)
  have x: "format_02X 0x80 = ''80''" "format_02X 0x84 = ''84''"
    by (simp_all add: format_02X_def upper_hex.simps upper_hex_digit_def)
  have r: "concat (map (attempt_readings ?env) (enumerate 0 catalogue_pairs)) =
          [(''Smart Electric Energy Meter'', ''EPC 0x80'', ''ON''),
           (''Smart Electric Energy Meter'', ''EPC 0x84'', ''150 W'')]"
    by (simp add: catalogue_pairs_def device_types_def property_sets_def enumerate_eq_zip
        upt_rec attempt_readings_def event_readings_def meter_reply response_readings_def f1 f2 x)
  from probe_full_sweep [of ?env] r show ?thesis
    by (auto simp: catalogue_pairs_def device_types_def property_sets_def)
qed

text \<open>
  Claim C8. The prober returns \<open>True\<close> exactly when its list of readings is not empty
  and \<open>False\<close> exactly when it is empty, and \<open>main\<close> turns that into the exit code 0
  or 1.
\<close>

theorem exit_status:
  "\<exists>st. probe_sweep env = Inr st \<and>
        (probe_echonet_device env = Inr True \<longleftrightarrow> successful_readings st \<noteq> []) \<and>
        (probe_echonet_device env = Inr False \<longleftrightarrow> successful_readings st = []) \<and>
        (main env = Inr 0 \<longleftrightarrow> successful_readings st \<noteq> []) \<and>
        (main env = Inr 1 \<longleftrightarrow> successful_readings st = [])"
  by (simp add: probe_sweep_eq probe_echonet_device_def main_def)

theorem exit_status_witness:
  "main \<lparr>clock = (\<lambda>k. 0), network = (\<lambda>k packet. TimedOut)\<rparr> = Inr 1 \<and>
   main \<lparr>clock = (\<lambda>k. 0),
         network = (\<lambda>k packet. Datagram [0x10, 0x81, 0, 0, 0x02, 0x88, 0x01, 0x05, 0xFF, 0x01, 0x72, 1,
                                          0x80, 1, 0x30])\<rparr> = Inr 0"
proof -
  let ?quiet = "\<lparr>clock = (\<lambda>k. 0), network = (\<lambda>k packet. TimedOut)\<rparr>"
  let ?live = "\<lparr>clock = (\<lambda>k. 0),
         network = (\<lambda>k packet. Datagram [0x10, 0x81, 0, 0, 0x02, 0x88, 0x01, 0x05, 0xFF, 0x01, 0x72, 1,
                                          0x80, 1, 0x30])\<rparr>"
  have q: "probe_sweep ?quiet = Inr st \<Longrightarrow> successful_readings st = []" for st
    by (auto simp: probe_sweep_eq attempt_readings_def event_readings_def split: prod.splits)
  have p: "parse_echonet_response
     [0x10, 0x81, 0, 0, 0x02, 0x88, 0x01, 0x05, 0xFF, 0x01, 0x72, 1, 0x80, 1, 0x30] =
   Some \<lparr>ehd = 0x1081, tid = 0, seoj = (0x02, 0x88, 0x01), deoj = (0x05, 0xFF, 0x01),
         esv = 0x72, opc = 1, props = [(0x80, 1, [0x30])]\<rparr>"
    by code_simp
  have l: "probe_sweep ?live = Inr st \<Longrightarrow> successful_readings st \<noteq> []" for st
    by (auto simp: probe_sweep_eq catalogue_pairs_def device_types_def property_sets_def
        enumerate_eq_zip upt_rec attempt_readings_def event_readings_def p response_readings_def)
  from exit_status [of ?quiet] exit_status [of ?live] q l show ?thesis
    by blast
qed

end
